theory Spec2Isabelle
  imports Main
begin

text \<open>
  The observable properties of smartobjects-js: the data context of
  \<open>src/datacontext.js\<close> (property accessors, change events and their dependents,
  \<open>reset\<close>, \<open>putAll\<close>, \<open>isValid\<close>, \<open>hasErrors\<close>, \<open>clearErrors\<close>, \<open>validate\<close>, \<open>attach\<close> and
  \<open>detach\<close>), the controller that attaches to a data context, and the command of
  \<open>src/command.js\<close> (\<open>canExecute\<close>, \<open>execute\<close>, \<open>tryExecute\<close>), each as a function on an
  explicit state.
\<close>

section \<open>Values, data contexts and the calls made on the event emitter\<close>

text \<open>
  JavaScript values as the data context handles them. A primitive is \<open>undefined\<close>,
  \<open>null\<close>, a boolean, a number, a string or a reference to an object the framework
  never looks into (a function, a plain object, a Command). Numbers are integers here:
  no operation below computes with them, they are only stored, compared with \<open>!==\<close>
  and tested for truthiness (\<open>NaN\<close> is left out).

  A data context owns its nested components: a component lives in the private slot of
  its property, where the component initialiser (\<open>model[name] = new this.component(...)\<close>)
  stores it. So a context is a tree, and a value is a primitive or a nested context.
  Two contexts are compared by their content where JavaScript compares object
  identities.
\<close>

datatype prim = JUndefined | JNull | JBool bool | JNum int | JStr string | JRef nat

datatype jsval = Prim prim | Comp ctx
and ctx = Ctx (cls: nat) (errs: "(string \<times> string list) list") (validating: bool)
              (slots: "(string \<times> jsval) list")

text \<open>
  \<open>DataContext extends EventEmitter\<close>, a class of the package micro-events. The emitter
  is modelled by the calls the data context makes on it, in order: \<open>on(type, listener)\<close>,
  \<open>off(type, listener)\<close> and \<open>emit(name, newValue, name, oldValue)\<close>, a listener being
  named by a number (the identity of the function). A call made on the emitter of the
  component under property \<open>p\<close> is wrapped in \<open>Child p\<close>. What a subscribed listener
  does with a notification is not modelled.
\<close>

datatype call = On string nat | Off string nat | Emit string jsval jsval | Child string call

datatype exn = TypeError | Error string | Thrown prim

datatype 'a outcome = Returns 'a | Throws exn

type_synonym key = "string option"

definition truthy :: "jsval \<Rightarrow> bool" where
  "truthy v = (case v of
       Prim JUndefined \<Rightarrow> False
     | Prim JNull \<Rightarrow> False
     | Prim (JBool b) \<Rightarrow> b
     | Prim (JNum i) \<Rightarrow> i \<noteq> 0
     | Prim (JStr s) \<Rightarrow> s \<noteq> []
     | Prim (JRef r) \<Rightarrow> True
     | Comp c \<Rightarrow> True)"

definition set_errs :: "(string \<times> string list) list \<Rightarrow> ctx \<Rightarrow> ctx" where
  "set_errs e c = Ctx (cls c) e (validating c) (slots c)"

definition set_validating :: "bool \<Rightarrow> ctx \<Rightarrow> ctx" where
  "set_validating b c = Ctx (cls c) (errs c) b (slots c)"

fun assign :: "string \<Rightarrow> 'v \<Rightarrow> (string \<times> 'v) list \<Rightarrow> (string \<times> 'v) list" where
  "assign k v [] = [(k, v)]"
| "assign k v ((k', v') # xs) = (if k' = k then (k, v) # xs else (k', v') # assign k v xs)"

definition set_slot :: "string \<Rightarrow> jsval \<Rightarrow> ctx \<Rightarrow> ctx" where
  "set_slot k v c = Ctx (cls c) (errs c) (validating c) (assign k v (slots c))"

definition slot :: "ctx \<Rightarrow> string \<Rightarrow> jsval" where
  "slot c k = (case map_of (slots c) k of None \<Rightarrow> Prim JUndefined | Some v \<Rightarrow> v)"

definition ivar :: "string \<Rightarrow> string" where
  "ivar name = ''_'' @ name"

section \<open>The Error Collector\<close>

text \<open>
  Modelled from the spec: \<open>errors.js\<close> (the class \<open>Errors\<close> behind \<open>this._errors\<close>) is not
  among the sources. The spec: the collector "maps key \<open>\<rightarrow>\<close> ordered sequence of error
  records. Invariant: absence of key \<open>\<Rightarrow>\<close> no errors for that key; \<open>isValid(key)\<close> \<open>\<Rightarrow>\<close>
  collector has no errors for key (or, for whole-entity check, no errors for any key)",
  and \<open>clearErrors(key?)\<close> "clears Error Collector entries for \<open>key\<close> (or all)". A key is
  \<open>Some k\<close>, or \<open>None\<close> when the argument is omitted (\<open>undefined\<close> or \<open>null\<close>).
  \<open>Errors_add\<close> is what a failed check of \<open>check(key, value)\<close> does: it "appends to the
  Error Collector".
\<close>

definition Errors_errors :: "(string \<times> string list) list \<Rightarrow> key \<Rightarrow> string list" where
  "Errors_errors e key = (case key of
       None \<Rightarrow> concat (map snd e)
     | Some k \<Rightarrow> concat (map snd (filter (\<lambda>(k', _). k' = k) e)))"

definition Errors_isValid :: "(string \<times> string list) list \<Rightarrow> key \<Rightarrow> bool" where
  "Errors_isValid e key = (Errors_errors e key = [])"

definition Errors_clear :: "(string \<times> string list) list \<Rightarrow> key \<Rightarrow> (string \<times> string list) list" where
  "Errors_clear e key = (case key of
       None \<Rightarrow> []
     | Some k \<Rightarrow> filter (\<lambda>(k', _). k' \<noteq> k) e)"

definition Errors_add :: "string \<Rightarrow> string \<Rightarrow> (string \<times> string list) list \<Rightarrow> (string \<times> string list) list" where
  "Errors_add k msg e = e @ [(k, [msg])]"

section \<open>Property descriptors and the accessors \<open>_defProperty\<close> installs\<close>

text \<open>
  A descriptor as \<open>_defProperty\<close> stores it: the user's \<open>get\<close> and \<open>set\<close> (when given), the
  default, the \<open>dependent\<close> names, and the \<open>component\<close> type (a class number) of a component
  property. A user getter reads the context and yields a primitive; a user setter
  changes the context and may throw. A \<open>default\<close> given as a function is a supplier
  \<open>_defProperty\<close> turns into a getter; it is modelled by the value it supplies.
  \<open>describe\<close> is the projection the controller calls; \<open>None\<close> stands for the one
  \<open>_defProperty\<close> fills in.

  A class is the result of \<open>properties()\<close>: the descriptors by name, the most derived
  declaration of a name winning, in the order lodash enumerates them. The class table
  gives every class number its descriptors; \<open>property(name)\<close> looks a name up in the
  same declarations.
\<close>

datatype view = Value jsval | ErrorList "string list"

record descriptor =
  get_fn :: "(ctx \<Rightarrow> prim) option"
  set_fn :: "(jsval \<Rightarrow> ctx \<Rightarrow> ctx \<times> exn option) option"
  dflt :: prim
  dependent :: "string list option"
  component :: "nat option"
  describe :: "(ctx \<Rightarrow> string \<Rightarrow> (string \<times> view) list) option"

type_synonym classes = "nat \<Rightarrow> (string \<times> descriptor) list"

definition properties :: "classes \<Rightarrow> ctx \<Rightarrow> (string \<times> descriptor) list" where
  "properties ct c = ct (cls c)"

definition property :: "classes \<Rightarrow> ctx \<Rightarrow> string \<Rightarrow> descriptor option" where
  "property ct c name = map_of (properties ct c) name"

text \<open>
  \<open>_defProperty\<close>: with \<open>get\<close> and \<open>set\<close> the property is writable and gets the accessor of
  \<open>makeRWProperty\<close>; with \<open>get\<close> alone it is not writable (\<open>makeReadonlyProperty\<close>; a
  command property is of this kind); otherwise it is writable with the accessor of
  \<open>makeDefaultRWProperty\<close>.
\<close>

definition writable :: "descriptor \<Rightarrow> bool" where
  "writable d = (case get_fn d of
       None \<Rightarrow> True
     | Some g \<Rightarrow> (case set_fn d of None \<Rightarrow> False | Some s \<Rightarrow> True))"

text \<open>
  Reading \<open>this[name]\<close>: the three accessors read the user's getter or the private slot
  \<open>_name\<close>, and give the default when that is \<open>undefined\<close>.
\<close>

definition prop_get :: "descriptor \<Rightarrow> string \<Rightarrow> ctx \<Rightarrow> jsval" where
  "prop_get d name c =
     (let value = (case get_fn d of Some g \<Rightarrow> Prim (g c) | None \<Rightarrow> slot c (ivar name))
      in if value = Prim JUndefined then Prim (dflt d) else value)"

section \<open>Firing change events\<close>

text \<open>
  The methods that call themselves (\<open>firePropertyChange\<close>, and below \<open>isValid\<close>,
  \<open>clearErrors\<close> and \<open>validate\<close>) take a call budget: each call spends one unit, and a
  call with none left gives \<open>None\<close>. Properties that name each other as dependents
  re-fire without end.

  \<open>firePropertyChange\<close> is the method, \<open>firePropertyChange_helper\<close> the module-level
  function of the same name (\<open>if (oldValue !== newValue) model.firePropertyChange(...)\<close>),
  and \<open>fire_dependents\<close> the \<open>_.each\<close> over \<open>property.dependent\<close>, which calls the helper
  with three arguments: \<open>firePropertyChange(this, p, this[p])\<close>, so \<open>oldValue\<close> is
  \<open>undefined\<close>. The result is the list of calls made on the emitter.
\<close>

fun firePropertyChange :: "nat \<Rightarrow> classes \<Rightarrow> ctx \<Rightarrow> string \<Rightarrow> jsval \<Rightarrow> jsval \<Rightarrow> call list option"
and firePropertyChange_helper :: "nat \<Rightarrow> classes \<Rightarrow> ctx \<Rightarrow> string \<Rightarrow> jsval \<Rightarrow> jsval \<Rightarrow> call list option"
and fire_dependents :: "nat \<Rightarrow> classes \<Rightarrow> ctx \<Rightarrow> string list \<Rightarrow> call list option"
where
  "firePropertyChange 0 ct c name newValue oldValue = None"
| "firePropertyChange (Suc n) ct c name newValue oldValue =
     (if \<not> validating c then
        map_option (\<lambda>tr. Emit name newValue oldValue # tr)
          (case property ct c name of
             None \<Rightarrow> Some []
           | Some d \<Rightarrow> (case dependent d of
                None \<Rightarrow> Some []
              | Some ps \<Rightarrow> fire_dependents n ct c ps))
      else Some [])"
| "firePropertyChange_helper n ct c name newValue oldValue =
     (if oldValue \<noteq> newValue then firePropertyChange n ct c name newValue oldValue
      else Some [])"
| "fire_dependents n ct c [] = Some []"
| "fire_dependents n ct c (p # ps) =
     (case property ct c p of
        None \<Rightarrow> fire_dependents n ct c ps
      | Some d \<Rightarrow>
          (case firePropertyChange_helper n ct c p (prop_get d p c) (Prim JUndefined) of
             None \<Rightarrow> None
           | Some tr \<Rightarrow> map_option (\<lambda>tr'. tr @ tr') (fire_dependents n ct c ps)))"

text \<open>
  The re-firing ends when the \<open>dependent\<close> declarations of the class have no cycle: some
  rank decreases from every property to each of its dependents that is declared.
\<close>

definition dependents_ranked :: "classes \<Rightarrow> ctx \<Rightarrow> (string \<Rightarrow> nat) \<Rightarrow> bool" where
  "dependents_ranked ct c rk =
     list_all (\<lambda>(p, d). list_all (\<lambda>q. property ct c q = None \<or> rk q < rk p)
                           (case dependent d of None \<Rightarrow> [] | Some qs \<Rightarrow> qs))
       (properties ct c)"

section \<open>Writing a property\<close>

text \<open>
  Assigning \<open>this[name] = newValue\<close> runs the setter of the accessor. The accessor of
  \<open>makeDefaultRWProperty\<close> takes the raw content of the slot as the old value; that of
  \<open>makeRWProperty\<close> takes \<open>property.get.call(this)\<close>, also without the default. A
  read-only accessor has no setter, and the module is in strict mode: the assignment
  throws a TypeError.
\<close>

definition prop_set ::
  "nat \<Rightarrow> classes \<Rightarrow> descriptor \<Rightarrow> string \<Rightarrow> jsval \<Rightarrow> ctx \<Rightarrow> (unit outcome \<times> ctx \<times> call list) option" where
  "prop_set n ct d name newValue c =
     (case get_fn d of
        None \<Rightarrow>
          (let oldValue = slot c (ivar name);
               c1 = set_slot (ivar name) newValue c
           in map_option (\<lambda>tr. (Returns (), c1, tr))
                (firePropertyChange_helper n ct c1 name newValue oldValue))
      | Some g \<Rightarrow>
          (case set_fn d of
             None \<Rightarrow> Some (Throws TypeError, c, [])
           | Some s \<Rightarrow>
               (let oldValue = Prim (g c) in
                case s newValue c of
                  (c1, Some e) \<Rightarrow> Some (Throws e, c1, [])
                | (c1, None) \<Rightarrow>
                    map_option (\<lambda>tr. (Returns (), c1, tr))
                      (firePropertyChange_helper n ct c1 name newValue oldValue))))"

section \<open>The lodash iterations\<close>

text \<open>
  \<open>_.each\<close> and \<open>_.every\<close> of lodash, over the entries of an object or an array, with a
  callback that changes a state, makes calls on the emitter, and may throw or run out
  of budget. \<open>_.every\<close> stops at the first callback result that is not truthy and gives
  \<open>false\<close>. (\<open>_.each\<close> would stop at a callback result \<open>false\<close>; the callbacks of this
  code have block bodies without a \<open>return\<close>.)
\<close>

fun lodash_each ::
  "('a \<Rightarrow> 's \<Rightarrow> (unit outcome \<times> 's \<times> call list) option) \<Rightarrow> 'a list \<Rightarrow> 's
     \<Rightarrow> (unit outcome \<times> 's \<times> call list) option" where
  "lodash_each f [] s = Some (Returns (), s, [])"
| "lodash_each f (x # xs) s =
     (case f x s of
        None \<Rightarrow> None
      | Some (Throws e, s', tr) \<Rightarrow> Some (Throws e, s', tr)
      | Some (Returns u, s', tr) \<Rightarrow>
          (case lodash_each f xs s' of
             None \<Rightarrow> None
           | Some (r, s'', tr') \<Rightarrow> Some (r, s'', tr @ tr')))"

fun lodash_every ::
  "('a \<Rightarrow> 's \<Rightarrow> (jsval outcome \<times> 's \<times> call list) option) \<Rightarrow> 'a list \<Rightarrow> 's
     \<Rightarrow> (bool outcome \<times> 's \<times> call list) option" where
  "lodash_every f [] s = Some (Returns True, s, [])"
| "lodash_every f (x # xs) s =
     (case f x s of
        None \<Rightarrow> None
      | Some (Throws e, s', tr) \<Rightarrow> Some (Throws e, s', tr)
      | Some (Returns v, s', tr) \<Rightarrow>
          (if truthy v then
             (case lodash_every f xs s' of
                None \<Rightarrow> None
              | Some (r, s'', tr') \<Rightarrow> Some (r, s'', tr @ tr'))
           else Some (Returns False, s', tr)))"

text \<open>
  Looking up a method on a value, as in \<open>_.isFunction(this[name].isValid)\<close>: the member
  access throws a TypeError on \<open>undefined\<close> and \<open>null\<close>; a nested data context has the
  methods of \<open>DataContext\<close>; any other value has none of them.
\<close>

datatype receiver = Nullish | NoMethod | Object ctx

definition receiver :: "jsval \<Rightarrow> receiver" where
  "receiver v = (case v of
       Prim JUndefined \<Rightarrow> Nullish
     | Prim JNull \<Rightarrow> Nullish
     | Prim p \<Rightarrow> NoMethod
     | Comp ch \<Rightarrow> Object ch)"

section \<open>The methods of \<open>DataContext\<close>\<close>

text \<open>
  \<open>reset(newData)\<close>: a missing \<open>newData\<close> is \<open>{}\<close>; every writable property is
  assigned
  \<open>newData[name] || property.default\<close>. \<open>putAll(newData)\<close> assigns \<open>newData[name]\<close> where
  \<open>newData.hasOwnProperty(name)\<close>.
\<close>

definition lookup :: "(string \<times> jsval) list \<Rightarrow> string \<Rightarrow> jsval" where
  "lookup newData name = (case map_of newData name of None \<Rightarrow> Prim JUndefined | Some v \<Rightarrow> v)"

definition reset ::
  "nat \<Rightarrow> classes \<Rightarrow> ctx \<Rightarrow> (string \<times> jsval) list option \<Rightarrow> (unit outcome \<times> ctx \<times> call list) option" where
  "reset n ct c newData =
     (let newData = (case newData of None \<Rightarrow> [] | Some nd \<Rightarrow> nd) in
      lodash_each (\<lambda>(name, desc) s.
          if writable desc then
            prop_set n ct desc name
              (if truthy (lookup newData name) then lookup newData name else Prim (dflt desc)) s
          else Some (Returns (), s, []))
        (properties ct c) c)"

definition putAll ::
  "nat \<Rightarrow> classes \<Rightarrow> ctx \<Rightarrow> (string \<times> jsval) list option \<Rightarrow> (unit outcome \<times> ctx \<times> call list) option" where
  "putAll n ct c newData =
     (case newData of
        None \<Rightarrow> Some (Returns (), c, [])
      | Some nd \<Rightarrow>
          lodash_each (\<lambda>(name, desc) s.
              if writable desc \<and> map_of nd name \<noteq> None then
                prop_set n ct desc name (lookup nd name) s
              else Some (Returns (), s, []))
            (properties ct c) c)"

text \<open>
  \<open>isValid(key)\<close>: the collector's answer for the key; without a key (\<open>key == null\<close>) and
  with a valid collector, \<open>_.every\<close> over the properties, asking each component that has
  an \<open>isValid\<close> method. \<open>hasErrors(key)\<close> is \<open>!this.isValid(key)\<close>.
\<close>

fun isValid :: "nat \<Rightarrow> classes \<Rightarrow> ctx \<Rightarrow> key \<Rightarrow> bool outcome option" where
  "isValid 0 ct c key = None"
| "isValid (Suc n) ct c key =
     (let valid = Errors_isValid (errs c) key in
      if valid \<and> key = None then
        map_option fst
          (lodash_every (\<lambda>(name, desc) u.
               if component desc \<noteq> None then
                 (case receiver (prop_get desc name c) of
                    Nullish \<Rightarrow> Some (Throws TypeError, u, [])
                  | NoMethod \<Rightarrow> Some (Returns (Prim (JBool True)), u, [])
                  | Object ch \<Rightarrow>
                      (case isValid n ct ch None of
                         None \<Rightarrow> None
                       | Some (Throws e) \<Rightarrow> Some (Throws e, u, [])
                       | Some (Returns b) \<Rightarrow> Some (Returns (Prim (JBool b)), u, [])))
               else Some (Returns (Prim (JBool True)), u, []))
             (properties ct c) ())
      else Some (Returns valid))"

definition hasErrors :: "nat \<Rightarrow> classes \<Rightarrow> ctx \<Rightarrow> key \<Rightarrow> bool outcome option" where
  "hasErrors n ct c key =
     (case isValid n ct c key of
        None \<Rightarrow> None
      | Some (Throws e) \<Rightarrow> Some (Throws e)
      | Some (Returns valid) \<Rightarrow> Some (Returns (\<not> valid)))"

text \<open>
  \<open>clearErrors(key)\<close>: clears the collector for the key and, without a key, runs
  \<open>_.every\<close> over the properties with a callback that returns what the component's
  \<open>clearErrors()\<close> returns. \<open>clearErrors\<close> has no \<open>return\<close> statement: it returns
  \<open>undefined\<close>.
\<close>

fun clearErrors :: "nat \<Rightarrow> classes \<Rightarrow> ctx \<Rightarrow> key \<Rightarrow> (unit outcome \<times> ctx \<times> call list) option" where
  "clearErrors 0 ct c key = None"
| "clearErrors (Suc n) ct c key =
     (let c1 = set_errs (Errors_clear (errs c) key) c in
      if key = None then
        (case lodash_every (\<lambda>(name, desc) s.
                 if component desc \<noteq> None then
                   (case receiver (prop_get desc name s) of
                      Nullish \<Rightarrow> Some (Throws TypeError, s, [])
                    | NoMethod \<Rightarrow> Some (Returns (Prim (JBool True)), s, [])
                    | Object ch \<Rightarrow>
                        (case clearErrors n ct ch None of
                           None \<Rightarrow> None
                         | Some (Throws e, ch', tr) \<Rightarrow>
                             Some (Throws e, set_slot (ivar name) (Comp ch') s, map (Child name) tr)
                         | Some (Returns u, ch', tr) \<Rightarrow>
                             Some (Returns (Prim JUndefined), set_slot (ivar name) (Comp ch') s,
                                   map (Child name) tr)))
                 else Some (Returns (Prim (JBool True)), s, []))
               (properties ct c1) c1 of
           None \<Rightarrow> None
         | Some (Throws e, c2, tr) \<Rightarrow> Some (Throws e, c2, tr)
         | Some (Returns b, c2, tr) \<Rightarrow> Some (Returns (), c2, tr))
      else Some (Returns (), c1, []))"

text \<open>
  \<open>validate()\<close>. The \<open>try\<close> block sets the flag and runs \<open>_.each\<close> over the properties,
  collecting \<open>changedProps\<close>; the \<open>finally\<close> block clears the flag and fires
  \<open>this.firePropertyChange(name, val, val)\<close> for each collected name, whether the block
  ended normally or by an exception; only after a normal end is \<open>this.isValid()\<close>
  returned. \<open>query\<close> continues with the boolean a call of \<open>isValid\<close> returned,
  \<open>this_get\<close> reads \<open>this[name]\<close> by name, and \<open>refire\<close> is the callback of the \<open>finally\<close>
  block.
\<close>

definition query ::
  "bool outcome option \<Rightarrow> 's \<Rightarrow> (bool \<Rightarrow> ('a outcome \<times> 's \<times> call list) option)
     \<Rightarrow> ('a outcome \<times> 's \<times> call list) option" where
  "query q s k = (case q of
       None \<Rightarrow> None
     | Some (Throws e) \<Rightarrow> Some (Throws e, s, [])
     | Some (Returns b) \<Rightarrow> k b)"

definition this_get :: "classes \<Rightarrow> ctx \<Rightarrow> string \<Rightarrow> jsval" where
  "this_get ct c name = (case property ct c name of
       None \<Rightarrow> slot c name
     | Some d \<Rightarrow> prop_get d name c)"

definition refire :: "nat \<Rightarrow> classes \<Rightarrow> string \<Rightarrow> ctx \<Rightarrow> (unit outcome \<times> ctx \<times> call list) option" where
  "refire n ct name s =
     (let val = this_get ct s name in
      map_option (\<lambda>t. (Returns (), s, t)) (firePropertyChange n ct s name val val))"

fun validate :: "nat \<Rightarrow> classes \<Rightarrow> ctx \<Rightarrow> (bool outcome \<times> ctx \<times> call list) option" where
  "validate 0 ct c = None"
| "validate (Suc n) ct c =
     (case lodash_each
        (\<lambda>(name, unused) (s, changedProps).
           case property ct s name of
             None \<Rightarrow> Some (Returns (), (s, changedProps), [])
           | Some descriptor \<Rightarrow>
               (case (if component descriptor \<noteq> None
                      then receiver (prop_get descriptor name s) else NoMethod) of
                  Nullish \<Rightarrow> Some (Throws TypeError, (s, changedProps), [])
                | Object ch \<Rightarrow>
                    query (isValid n ct ch None) (s, changedProps) (\<lambda>validComponent.
                    query (isValid n ct s (Some name)) (s, changedProps) (\<lambda>validProp.
                      case validate n ct ch of
                        None \<Rightarrow> None
                      | Some (Throws e, ch', tr) \<Rightarrow>
                          Some (Throws e, (set_slot (ivar name) (Comp ch') s, changedProps),
                                map (Child name) tr)
                      | Some (Returns v, ch', tr) \<Rightarrow>
                          (let s' = set_slot (ivar name) (Comp ch') s in
                           if validComponent \<noteq> v
                           then Some (Returns (), (s', changedProps @ [name]), map (Child name) tr)
                           else
                             (case isValid n ct s' (Some name) of
                                None \<Rightarrow> None
                              | Some (Throws e) \<Rightarrow>
                                  Some (Throws e, (s', changedProps), map (Child name) tr)
                              | Some (Returns validProp') \<Rightarrow>
                                  Some (Returns (),
                                        (s', if validProp \<noteq> validProp'
                                             then changedProps @ [name] else changedProps),
                                        map (Child name) tr)))))
                | NoMethod \<Rightarrow>
                    if writable descriptor then
                      query (isValid n ct s (Some name)) (s, changedProps) (\<lambda>valid.
                        case prop_set n ct descriptor name (prop_get descriptor name s) s of
                          None \<Rightarrow> None
                        | Some (Throws e, s', tr) \<Rightarrow> Some (Throws e, (s', changedProps), tr)
                        | Some (Returns u, s', tr) \<Rightarrow>
                            (case isValid n ct s' (Some name) of
                               None \<Rightarrow> None
                             | Some (Throws e) \<Rightarrow> Some (Throws e, (s', changedProps), tr)
                             | Some (Returns valid') \<Rightarrow>
                                 Some (Returns (),
                                       (s', if valid \<noteq> valid'
                                            then changedProps @ [name] else changedProps),
                                       tr)))
                    else Some (Returns (), (s, changedProps), [])))
        (properties ct c) (set_validating True c, []) of
        None \<Rightarrow> None
      | Some (r, (c1, changedProps), tr) \<Rightarrow>
          (let c2 = set_validating False c1 in
           case lodash_each (refire n ct) changedProps c2 of
             None \<Rightarrow> None
           | Some (Throws e, c3, tr2) \<Rightarrow> Some (Throws e, c3, tr @ tr2)
           | Some (Returns u, c3, tr2) \<Rightarrow>
               (case r of
                  Throws e \<Rightarrow> Some (Throws e, c3, tr @ tr2)
                | Returns u' \<Rightarrow>
                    (case isValid n ct c3 None of
                       None \<Rightarrow> None
                     | Some v \<Rightarrow> Some (v, c3, tr @ tr2)))))"



section \<open>The event emitter\<close>

text \<open>
  The package micro-events, from which the data context inherits \<open>on\<close>, \<open>off\<close> and
  \<open>emit\<close>, is not among the sources. Where a property depends on what the emitter does
  with the calls made on it, its operations are parameters: \<open>on_fn\<close> and \<open>off_fn\<close> change
  the state of the emitter, and \<open>listeners_fn\<close> gives the listeners that \<open>emit(type, ...)\<close>
  calls, in order, each as often as it is called. \<open>run_calls\<close> applies recorded calls to a
  state of the emitter (a call on the emitter of a component does not touch it), and
  \<open>notified\<close> gives the notifications that an \<open>emit\<close> delivers in a state: the listener
  and its arguments \<open>(newValue, name, oldValue)\<close>.
\<close>

record 'e emitter_ops =
  on_fn :: "string \<Rightarrow> nat \<Rightarrow> 'e \<Rightarrow> 'e"
  off_fn :: "string \<Rightarrow> nat \<Rightarrow> 'e \<Rightarrow> 'e"
  listeners_fn :: "'e \<Rightarrow> string \<Rightarrow> nat list"




text \<open>
  Modelled from the spec: the emitter of micro-events is missing. The spec has
  \<open>attach(listener)\<close> subscribe the listener to the change events of every declared
  property name, the callback invoked on every property change, and \<open>detach(token)\<close>
  unsubscribe it. So \<open>on\<close> of a listener that is not subscribed for the type makes
  \<open>emit\<close> of the type call it once, \<open>off\<close> of a listener that is called once leaves it
  not called, and neither touches another type. What \<open>on\<close> does with a listener that
  is subscribed already is left open.
\<close>

definition emitter_laws :: "'e emitter_ops \<Rightarrow> bool" where
  "emitter_laws ops \<longleftrightarrow>
     (\<forall>t l e. l \<notin> set (listeners_fn ops e t) \<longrightarrow>
        count_list (listeners_fn ops (on_fn ops t l e) t) l = 1) \<and>
     (\<forall>t t' l e. t' \<noteq> t \<longrightarrow> listeners_fn ops (on_fn ops t l e) t' = listeners_fn ops e t') \<and>
     (\<forall>t l e. count_list (listeners_fn ops e t) l = 1 \<longrightarrow>
        l \<notin> set (listeners_fn ops (off_fn ops t l e) t)) \<and>
     (\<forall>t t' l e. t' \<noteq> t \<longrightarrow> listeners_fn ops (off_fn ops t l e) t' = listeners_fn ops e t')"

section \<open>The controller\<close>







section \<open>Command\<close>

text \<open>
  A command holds its condition (\<open>_canExecute\<close>: a function, or \<open>null\<close>/\<open>undefined\<close>), its
  action (\<open>_execute\<close>), the context both are applied to (\<open>_context\<close>), \<open>_isRunning\<close> and \<open>_promise\<close>.
  The condition and the action are the user's code: each gets the context and the
  arguments, reads and changes the state \<open>'w\<close> of the program around the command, and
  returns or throws. An action returns a value with an \<open>always\<close> method (a deferred,
  named by a number) or any other value. Of the emitter the model keeps the events
  emitted; of \<open>setTimeout\<close> the number of callbacks scheduled; of \<open>console.warn\<close> the
  exceptions reported.
\<close>

datatype result = Plain jsval | Deferred nat

datatype promise = Adopted nat | Resolved jsval | Rejected "exn option"

record ('c, 'w) command =
  condition :: "('c \<Rightarrow> jsval list \<Rightarrow> 'w \<Rightarrow> jsval outcome \<times> 'w) option"
  action :: "'c \<Rightarrow> jsval list \<Rightarrow> 'w \<Rightarrow> result outcome \<times> 'w"
  cmd_context :: 'c
  isRunning :: bool
  promise :: "promise option"
  emitted :: "(string \<times> string list) list"
  timers :: nat
  warned :: "exn list"

definition emit :: "string \<Rightarrow> string list \<Rightarrow> ('c, 'w) command \<Rightarrow> ('c, 'w) command" where
  "emit type args k = k\<lparr>emitted := emitted k @ [(type, args)]\<rparr>"

definition notifyCanExecute :: "('c, 'w) command \<Rightarrow> ('c, 'w) command" where
  "notifyCanExecute k = emit ''canExecute'' [] k"

definition canExecute :: "('c, 'w) command \<Rightarrow> jsval list \<Rightarrow> 'w \<Rightarrow> jsval outcome \<times> 'w" where
  "canExecute k args w =
     (if isRunning k then (Returns (Prim (JBool False)), w)
      else (case condition k of
              Some f \<Rightarrow> f (cmd_context k) args w
            | None \<Rightarrow> (Returns (Prim (JBool True)), w)))"

definition execute ::
  "('c, 'w) command \<Rightarrow> jsval list \<Rightarrow> 'w \<Rightarrow> promise outcome \<times> ('c, 'w) command \<times> 'w" where
  "execute k args w =
     (case canExecute k args w of
        (Throws e, w1) \<Rightarrow> (Throws e, k, w1)
      | (Returns v, w1) \<Rightarrow>
          if truthy v then
            (let k1 = emit ''execute'' [''started''] (notifyCanExecute (k\<lparr>isRunning := True\<rparr>)) in
             case action k1 (cmd_context k1) args w1 of
               (Returns r, w2) \<Rightarrow>
                 (let p = (case r of Deferred i \<Rightarrow> Adopted i | Plain x \<Rightarrow> Resolved x) in
                  (Returns p, k1\<lparr>promise := Some p, timers := Suc (timers k1)\<rparr>, w2))
             | (Throws e, w2) \<Rightarrow>
                 (let p = Rejected (Some e) in
                  (Returns p,
                   k1\<lparr>promise := Some p, timers := Suc (timers k1), warned := warned k1 @ [e]\<rparr>,
                   w2)))
          else (Throws (Error ''Cannot execute this command now''), k, w1))"

definition tryExecute ::
  "('c, 'w) command \<Rightarrow> jsval list \<Rightarrow> 'w \<Rightarrow> promise outcome \<times> ('c, 'w) command \<times> 'w" where
  "tryExecute k args w =
     (case canExecute k args w of
        (Throws e, w1) \<Rightarrow> (Throws e, k, w1)
      | (Returns v, w1) \<Rightarrow>
          if truthy v then execute k args w1
          else (Returns (Rejected None), k, w1))"

section \<open>Sample programs\<close>

text \<open>
  A command whose condition asks for at least as many arguments as its context says,
  and whose action counts its invocations in the state around it.
\<close>

definition greet :: "(nat, nat) command" where
  "greet = \<lparr>condition = Some (\<lambda>this args w. (Returns (Prim (JBool (this \<le> length args))), w)),
            action = (\<lambda>this args w. (Returns (Plain (Prim (JNum (int this)))), Suc w)),
            cmd_context = 1, isRunning = False, promise = None, emitted = [], timers = 0,
            warned = []\<rparr>"

text \<open>
  Five classes. Class 0, a person: \<open>first\<close> names \<open>full\<close>, \<open>nick\<close> and the undeclared
  \<open>ghost\<close> as dependents; \<open>full\<close> is computed by a getter; \<open>nick\<close> has no default; \<open>count\<close>
  has the default 5. Class 1, a form: a title and two components of class 2, an
  address. Class 3, a patient: \<open>age\<close> has a getter and a setter, and the setter throws
  when it is given anything but a number and records an error for a negative one.
  Class 4, a clinic, with a patient as its component.
\<close>

definition plain :: descriptor where
  "plain = \<lparr>get_fn = None, set_fn = None, dflt = JUndefined, dependent = None,
            component = None, describe = None\<rparr>"

definition full_name :: "ctx \<Rightarrow> prim" where
  "full_name c = (case slot c ''_first'' of
       Prim (JStr s) \<Rightarrow> JStr (s @ '' Doe'')
     | _ \<Rightarrow> JUndefined)"

definition get_age :: "ctx \<Rightarrow> prim" where
  "get_age c = (case slot c ''_age'' of Prim p \<Rightarrow> p | _ \<Rightarrow> JUndefined)"

definition set_age :: "jsval \<Rightarrow> ctx \<Rightarrow> ctx \<times> exn option" where
  "set_age v c = (case v of
       Prim (JNum i) \<Rightarrow>
         (set_slot ''_age'' v
            (if i < 0
             then set_errs (Errors_add ''age'' ''negative'' (Errors_clear (errs c) (Some ''age''))) c
             else set_errs (Errors_clear (errs c) (Some ''age'')) c), None)
     | _ \<Rightarrow> (c, Some (Thrown (JStr ''age is not a number''))))"

definition sample :: classes where
  "sample i =
     (if i = 0 then
        [(''first'', plain\<lparr>dependent := Some [''full'', ''nick'', ''ghost'']\<rparr>),
         (''full'', plain\<lparr>get_fn := Some full_name\<rparr>),
         (''nick'', plain),
         (''count'', plain\<lparr>dflt := JNum 5\<rparr>)]
      else if i = 1 then
        [(''title'', plain\<lparr>dflt := JStr ''untitled''\<rparr>),
         (''billing'', plain\<lparr>component := Some 2\<rparr>),
         (''shipping'', plain\<lparr>component := Some 2\<rparr>)]
      else if i = 2 then
        [(''zip'', plain)]
      else if i = 3 then
        [(''age'', plain\<lparr>get_fn := Some get_age, set_fn := Some set_age\<rparr>)]
      else
        [(''patient'', plain\<lparr>component := Some 3\<rparr>)])"

definition person :: ctx where
  "person = Ctx 0 [] False [(''_first'', Prim (JStr ''Al''))]"

definition person_rank :: "string \<Rightarrow> nat" where
  "person_rank name = (if name = ''first'' then 1 else 0)"

definition address :: ctx where
  "address = Ctx 2 [(''zip'', [''required''])] False []"

definition form :: ctx where
  "form = Ctx 1 [] False [(''_billing'', Comp address), (''_shipping'', Comp address)]"

definition patient :: ctx where
  "patient = Ctx 3 [] False []"

definition clinic :: ctx where
  "clinic = Ctx 4 [] False [(''_patient'', Comp patient)]"



definition ignoring :: "(string \<Rightarrow> nat list) emitter_ops" where
  "ignoring = \<lparr>on_fn = (\<lambda>t l e. if l \<in> set (e t) then e else e(t := e t @ [l])),
               off_fn = (\<lambda>t l e. e(t := remove1 l (e t))),
               listeners_fn = (\<lambda>e t. e t)\<rparr>"

section \<open>Properties of Command\<close>

text \<open>
  C7: for every command and every argument list, \<open>canExecute\<close> returns \<open>false\<close> whenever
  \<open>isRunning\<close> is true; otherwise it returns what the configured condition returns for
  the arguments, applied to the command's context; and it returns \<open>true\<close> when no
  condition is configured.
\<close>

theorem canExecute_cases:
  "(isRunning k \<longrightarrow> canExecute k args w = (Returns (Prim (JBool False)), w)) \<and>
   (\<not> isRunning k \<longrightarrow>
      (\<forall>f. condition k = Some f \<longrightarrow> canExecute k args w = f (cmd_context k) args w)) \<and>
   (\<not> isRunning k \<longrightarrow> condition k = None \<longrightarrow>
      canExecute k args w = (Returns (Prim (JBool True)), w))"
  by (simp add: canExecute_def)

theorem canExecute_cases_witness:
  "isRunning (greet\<lparr>isRunning := True\<rparr>) \<and>
   canExecute (greet\<lparr>isRunning := True\<rparr>) [Prim JNull] (0::nat) = (Returns (Prim (JBool False)), 0) \<and>
   \<not> isRunning greet \<and>
   canExecute greet [Prim JNull] (0::nat) = (Returns (Prim (JBool True)), 0) \<and>
   canExecute greet [] (0::nat) = (Returns (Prim (JBool False)), 0) \<and>
   condition (greet\<lparr>condition := None\<rparr>) = None \<and>
   canExecute (greet\<lparr>condition := None\<rparr>) [] (0::nat) = (Returns (Prim (JBool True)), 0)"
  using canExecute_cases [of "greet\<lparr>isRunning := True\<rparr>" "[Prim JNull]" 0]
        canExecute_cases [of greet "[Prim JNull]" 0]
        canExecute_cases [of greet "[]" 0]
        canExecute_cases [of "greet\<lparr>condition := None\<rparr>" "[]" 0]
  by (simp add: greet_def)

text \<open>
  C4: when \<open>canExecute\<close> evaluates to a value that is not truthy, \<open>execute\<close> throws the
  error "Cannot execute this command now" and \<open>tryExecute\<close> returns a promise that is
  already rejected; in both cases the command is as it was and the state around it is
  the one the condition left, whatever the action is: the action is not invoked. When
  \<open>canExecute\<close> evaluates to a truthy value, \<open>tryExecute\<close> is \<open>execute\<close>, run in the state
  the condition left.
\<close>

theorem execute_guard:
  assumes "canExecute k args w = (Returns v, w1)"
  shows "(\<not> truthy v \<longrightarrow>
            execute k args w = (Throws (Error ''Cannot execute this command now''), k, w1) \<and>
            tryExecute k args w = (Returns (Rejected None), k, w1) \<and>
            (\<forall>a. execute (k\<lparr>action := a\<rparr>) args w =
                   (Throws (Error ''Cannot execute this command now''), k\<lparr>action := a\<rparr>, w1)) \<and>
            (\<forall>a. tryExecute (k\<lparr>action := a\<rparr>) args w =
                   (Returns (Rejected None), k\<lparr>action := a\<rparr>, w1))) \<and>
         (truthy v \<longrightarrow> tryExecute k args w = execute k args w1)"
proof -
  have same: "canExecute (k\<lparr>action := a\<rparr>) args w = canExecute k args w" for a
    by (simp add: canExecute_def split: option.splits)
  show ?thesis
    using assms by (simp add: execute_def tryExecute_def same)
qed

theorem execute_guard_witness:
  "canExecute greet [] (5::nat) = (Returns (Prim (JBool False)), 5) \<and>
   \<not> truthy (Prim (JBool False)) \<and>
   execute greet [] (5::nat) = (Throws (Error ''Cannot execute this command now''), greet, 5) \<and>
   tryExecute greet [] (5::nat) = (Returns (Rejected None), greet, 5) \<and>
   canExecute greet [Prim JNull] (5::nat) = (Returns (Prim (JBool True)), 5) \<and>
   truthy (Prim (JBool True)) \<and>
   tryExecute greet [Prim JNull] (5::nat) = execute greet [Prim JNull] 5 \<and>
   snd (snd (execute greet [Prim JNull] (5::nat))) = 6"
proof -
  have no: "canExecute greet [] (5::nat) = (Returns (Prim (JBool False)), 5)"
    by (simp add: canExecute_def greet_def)
  have yes: "canExecute greet [Prim JNull] (5::nat) = (Returns (Prim (JBool True)), 5)"
    by (simp add: canExecute_def greet_def)
  have ran: "snd (snd (execute greet [Prim JNull] (5::nat))) = 6"
    by (simp add: execute_def yes truthy_def Let_def emit_def notifyCanExecute_def)
       (simp add: greet_def Let_def)
  show ?thesis
    using execute_guard [OF no] execute_guard [OF yes] no yes ran
    by (simp add: truthy_def)
qed

section \<open>Properties of the data context\<close>

text \<open>
  The equations of the recursive methods are unfolded by hand.
\<close>

declare isValid.simps [simp del] clearErrors.simps [simp del] validate.simps [simp del]

subsection \<open>The iterations\<close>

lemma every_unit_cases:
  fixes f :: "'a \<Rightarrow> unit \<Rightarrow> (jsval outcome \<times> unit \<times> call list) option"
  assumes "lodash_every f xs () = Some (Returns b, (), tr)"
  shows "if b then (\<forall>x\<in>set xs. \<exists>v t. f x () = Some (Returns v, (), t) \<and> truthy v)
         else (\<exists>x\<in>set xs. \<exists>v t. f x () = Some (Returns v, (), t) \<and> \<not> truthy v)"
  using assms
proof (induction xs arbitrary: b tr)
  case Nil
  then show ?case by simp
next
  case (Cons x xs)
  from Cons.prems obtain r t where fx: "f x () = Some (r, (), t)"
    by (cases "f x ()") auto
  show ?case
  proof (cases r)
    case (Throws e)
    with Cons.prems fx show ?thesis by simp
  next
    case (Returns v)
    show ?thesis
    proof (cases "truthy v")
      case False
      with Cons.prems fx Returns show ?thesis by auto
    next
      case True
      with Cons.prems fx Returns obtain tr' where
        rest: "lodash_every f xs () = Some (Returns b, (), tr')"
        by (auto split: option.splits prod.splits)
      from Cons.IH [OF rest] fx Returns True show ?thesis
        by (cases b) auto
    qed
  qed
qed

lemma every_unit_total:
  fixes f :: "'a \<Rightarrow> unit \<Rightarrow> (jsval outcome \<times> unit \<times> call list) option"
  assumes "\<forall>x\<in>set xs. \<exists>v t. f x () = Some (Returns v, (), t)"
  shows "\<exists>b t. lodash_every f xs () = Some (Returns b, (), t)"
  using assms
proof (induction xs)
  case Nil
  then show ?case by auto
next
  case (Cons x xs)
  then obtain v t where fx: "f x () = Some (Returns v, (), t)" by auto
  from Cons obtain b t' where "lodash_every f xs () = Some (Returns b, (), t')" by auto
  with fx show ?case by auto
qed

subsection \<open>Validity\<close>

lemma isValid_key:
  "isValid (Suc n) ct c (Some k) = Some (Returns (Errors_errors (errs c) (Some k) = []))"
  by (simp add: isValid.simps Errors_isValid_def)

lemma receiver_Comp: "receiver (Comp ch) = Object ch"
  by (simp add: receiver_def)

lemma receiver_Object: "receiver v = Object ch \<longleftrightarrow> v = Comp ch"
  by (auto simp: receiver_def split: jsval.splits prim.splits)

lemma receiver_Nullish: "receiver v = Nullish \<longleftrightarrow> v = Prim JUndefined \<or> v = Prim JNull"
  by (auto simp: receiver_def split: jsval.splits prim.splits)

lemma isValid_omitted_iff:
  assumes "isValid (Suc n) ct c None = Some (Returns b)"
  shows "b \<longleftrightarrow> Errors_errors (errs c) None = [] \<and>
           (\<forall>(name, d)\<in>set (properties ct c). component d \<noteq> None \<longrightarrow>
              (\<forall>ch. prop_get d name c = Comp ch \<longrightarrow> isValid n ct ch None = Some (Returns True)))"
proof (cases "Errors_errors (errs c) None = []")
  case False
  with assms show ?thesis by (simp add: isValid.simps Errors_isValid_def)
next
  case True
  define f :: "string \<times> descriptor \<Rightarrow> unit \<Rightarrow> (jsval outcome \<times> unit \<times> call list) option" where
    "f = (\<lambda>(name, desc) u.
               if component desc \<noteq> None then
                 (case receiver (prop_get desc name c) of
                    Nullish \<Rightarrow> Some (Throws TypeError, u, [])
                  | NoMethod \<Rightarrow> Some (Returns (Prim (JBool True)), u, [])
                  | Object ch \<Rightarrow>
                      (case isValid n ct ch None of
                         None \<Rightarrow> None
                       | Some (Throws e) \<Rightarrow> Some (Throws e, u, [])
                       | Some (Returns b) \<Rightarrow> Some (Returns (Prim (JBool b)), u, [])))
               else Some (Returns (Prim (JBool True)), u, []))"
  from assms True obtain tr where
    ev: "lodash_every f (properties ct c) () = Some (Returns b, (), tr)"
    by (auto simp: isValid.simps Errors_isValid_def f_def)
  have good: "truthy v \<longleftrightarrow> (component d \<noteq> None \<longrightarrow>
              (\<forall>ch. prop_get d name c = Comp ch \<longrightarrow> isValid n ct ch None = Some (Returns True)))"
    if "f (name, d) () = Some (Returns v, (), t)" for name d v t
    using that
    by (auto simp: f_def truthy_def receiver_Object receiver_Comp
             split: if_splits receiver.splits option.splits outcome.splits)
  show ?thesis
  proof (cases b)
    case True
    with every_unit_cases [OF ev]
    have "\<forall>x\<in>set (properties ct c). \<exists>v t. f x () = Some (Returns v, (), t) \<and> truthy v" by simp
    with good True \<open>Errors_errors (errs c) None = []\<close> show ?thesis by fastforce
  next
    case False
    with every_unit_cases [OF ev]
    obtain x v t where "x \<in> set (properties ct c)" "f x () = Some (Returns v, (), t)" "\<not> truthy v"
      by auto
    with good False show ?thesis by (cases x) blast
  qed
qed

lemma isValid_omitted_returns:
  assumes "\<forall>(name, d)\<in>set (properties ct c). component d \<noteq> None \<longrightarrow>
              prop_get d name c \<noteq> Prim JUndefined \<and> prop_get d name c \<noteq> Prim JNull \<and>
              (\<forall>ch. prop_get d name c = Comp ch \<longrightarrow> (\<exists>b. isValid n ct ch None = Some (Returns b)))"
  shows "\<exists>b. isValid (Suc n) ct c None = Some (Returns b)"
proof (cases "Errors_errors (errs c) None = []")
  case False
  then show ?thesis by (auto simp: isValid.simps Errors_isValid_def)
next
  case True
  define f :: "string \<times> descriptor \<Rightarrow> unit \<Rightarrow> (jsval outcome \<times> unit \<times> call list) option" where
    "f = (\<lambda>(name, desc) u.
               if component desc \<noteq> None then
                 (case receiver (prop_get desc name c) of
                    Nullish \<Rightarrow> Some (Throws TypeError, u, [])
                  | NoMethod \<Rightarrow> Some (Returns (Prim (JBool True)), u, [])
                  | Object ch \<Rightarrow>
                      (case isValid n ct ch None of
                         None \<Rightarrow> None
                       | Some (Throws e) \<Rightarrow> Some (Throws e, u, [])
                       | Some (Returns b) \<Rightarrow> Some (Returns (Prim (JBool b)), u, [])))
               else Some (Returns (Prim (JBool True)), u, []))"
  have "\<exists>v t. f x () = Some (Returns v, (), t)" if "x \<in> set (properties ct c)" for x
  proof (cases x)
    case (Pair name d)
    with that assms have h: "component d \<noteq> None \<longrightarrow>
              prop_get d name c \<noteq> Prim JUndefined \<and> prop_get d name c \<noteq> Prim JNull \<and>
              (\<forall>ch. prop_get d name c = Comp ch \<longrightarrow> (\<exists>b. isValid n ct ch None = Some (Returns b)))"
      by auto
    show ?thesis
    proof (cases "receiver (prop_get d name c)")
      case Nullish
      with h Pair show ?thesis by (auto simp: f_def receiver_Nullish)
    next
      case NoMethod
      with Pair show ?thesis by (simp add: f_def)
    next
      case (Object ch)
      with h Pair show ?thesis by (auto simp: f_def receiver_Object receiver_Comp)
    qed
  qed
  from every_unit_total [of "properties ct c" f] this
  obtain b t where "lodash_every f (properties ct c) () = Some (Returns b, (), t)" by blast
  with True show ?thesis by (simp add: isValid.simps Errors_isValid_def f_def)
qed

subsection \<open>Re-firing along ranked dependents\<close>

lemma dependents_rankedD:
  assumes "dependents_ranked ct c rk" "property ct c p = Some d" "dependent d = Some qs"
    "q \<in> set qs" "property ct c q \<noteq> None"
  shows "rk q < rk p"
proof -
  from assms(2) have "(p, d) \<in> set (properties ct c)"
    by (auto simp: property_def dest: map_of_SomeD)
  with assms(1,3,4,5) show ?thesis
    by (fastforce simp: dependents_ranked_def list_all_iff)
qed

lemma fire_dependents_ranked:
  assumes A: "\<And>name nv ov. rk name < n \<Longrightarrow>
                \<exists>tr. firePropertyChange n ct c name nv ov = Some (Emit name nv ov # tr) \<and>
                     (\<forall>e\<in>set tr. \<exists>q v. e = Emit q v (Prim JUndefined) \<and> v \<noteq> Prim JUndefined \<and>
                                       property ct c q \<noteq> None)"
    and ps: "\<forall>p\<in>set ps. property ct c p \<noteq> None \<longrightarrow> rk p < n"
  shows "\<exists>tr. fire_dependents n ct c ps = Some tr \<and>
              (\<forall>e\<in>set tr. \<exists>q v. e = Emit q v (Prim JUndefined) \<and> v \<noteq> Prim JUndefined \<and>
                                property ct c q \<noteq> None) \<and>
              (\<forall>p\<in>set ps. \<forall>dp. property ct c p = Some dp \<longrightarrow> prop_get dp p c \<noteq> Prim JUndefined \<longrightarrow>
                   Emit p (prop_get dp p c) (Prim JUndefined) \<in> set tr)"
  using ps
proof (induction ps)
  case Nil
  then show ?case by simp
next
  case (Cons p ps)
  then obtain tr2 where
    rest: "fire_dependents n ct c ps = Some tr2"
    and old2: "\<forall>e\<in>set tr2. \<exists>q v. e = Emit q v (Prim JUndefined) \<and> v \<noteq> Prim JUndefined \<and>
                                property ct c q \<noteq> None"
    and cov2: "\<forall>p\<in>set ps. \<forall>dp. property ct c p = Some dp \<longrightarrow> prop_get dp p c \<noteq> Prim JUndefined \<longrightarrow>
                   Emit p (prop_get dp p c) (Prim JUndefined) \<in> set tr2"
    by auto
  show ?case
  proof (cases "property ct c p")
    case None
    with rest old2 cov2 show ?thesis by auto
  next
    case (Some dp)
    show ?thesis
    proof (cases "prop_get dp p c = Prim JUndefined")
      case True
      with Some rest old2 cov2 show ?thesis by auto
    next
      case False
      from Some Cons.prems have "rk p < n" by simp
      from A [OF this, of "prop_get dp p c" "Prim JUndefined"] obtain tr1 where
        one: "firePropertyChange n ct c p (prop_get dp p c) (Prim JUndefined)
                = Some (Emit p (prop_get dp p c) (Prim JUndefined) # tr1)"
        and old1: "\<forall>e\<in>set tr1. \<exists>q v. e = Emit q v (Prim JUndefined) \<and> v \<noteq> Prim JUndefined \<and>
                                property ct c q \<noteq> None"
        by blast
      have run: "fire_dependents n ct c (p # ps)
                   = Some ((Emit p (prop_get dp p c) (Prim JUndefined) # tr1) @ tr2)"
        using Some False one rest by auto
      have old: "\<forall>e\<in>set ((Emit p (prop_get dp p c) (Prim JUndefined) # tr1) @ tr2).
                   \<exists>q v. e = Emit q v (Prim JUndefined) \<and> v \<noteq> Prim JUndefined \<and> property ct c q \<noteq> None"
        using old1 old2 False Some by auto
      have cov: "\<forall>p'\<in>set (p # ps). \<forall>dp'. property ct c p' = Some dp' \<longrightarrow>
                    prop_get dp' p' c \<noteq> Prim JUndefined \<longrightarrow>
                    Emit p' (prop_get dp' p' c) (Prim JUndefined)
                      \<in> set ((Emit p (prop_get dp p c) (Prim JUndefined) # tr1) @ tr2)"
        using cov2 Some by auto
      from run old cov show ?thesis by blast
    qed
  qed
qed

lemma firePropertyChange_ranked:
  assumes rk: "dependents_ranked ct c rk" and idle: "\<not> validating c"
  shows "rk name < n \<Longrightarrow>
           \<exists>tr. firePropertyChange n ct c name nv ov = Some (Emit name nv ov # tr) \<and>
                (\<forall>e\<in>set tr. \<exists>q v. e = Emit q v (Prim JUndefined) \<and> v \<noteq> Prim JUndefined \<and>
                                  property ct c q \<noteq> None) \<and>
                (\<forall>d ps. property ct c name = Some d \<longrightarrow> dependent d = Some ps \<longrightarrow>
                   (\<forall>p\<in>set ps. \<forall>dp. property ct c p = Some dp \<longrightarrow>
                      prop_get dp p c \<noteq> Prim JUndefined \<longrightarrow>
                      Emit p (prop_get dp p c) (Prim JUndefined) \<in> set tr))"
proof (induction n arbitrary: name nv ov)
  case 0
  then show ?case by simp
next
  case (Suc n)
  show ?case
  proof (cases "property ct c name")
    case None
    with idle show ?thesis by simp
  next
    case (Some d)
    show ?thesis
    proof (cases "dependent d")
      case None
      with Some idle show ?thesis by simp
    next
      case (Some ps)
      have below: "\<forall>p\<in>set ps. property ct c p \<noteq> None \<longrightarrow> rk p < n"
      proof (intro ballI impI)
        fix p assume "p \<in> set ps" "property ct c p \<noteq> None"
        with dependents_rankedD [OF rk \<open>property ct c name = Some d\<close> Some]
        have "rk p < rk name" by blast
        with Suc.prems show "rk p < n" by simp
      qed
      have A: "\<exists>tr. firePropertyChange n ct c name' nv' ov' = Some (Emit name' nv' ov' # tr) \<and>
                     (\<forall>e\<in>set tr. \<exists>q v. e = Emit q v (Prim JUndefined) \<and> v \<noteq> Prim JUndefined \<and>
                                       property ct c q \<noteq> None)"
        if "rk name' < n" for name' nv' ov'
        using Suc.IH [OF that, of nv' ov'] by blast
      from fire_dependents_ranked [of rk n ct c ps, OF A below]
      obtain tr where "fire_dependents n ct c ps = Some tr"
        "\<forall>e\<in>set tr. \<exists>q v. e = Emit q v (Prim JUndefined) \<and> v \<noteq> Prim JUndefined \<and>
                                property ct c q \<noteq> None"
        "\<forall>p\<in>set ps. \<forall>dp. property ct c p = Some dp \<longrightarrow> prop_get dp p c \<noteq> Prim JUndefined \<longrightarrow>
                   Emit p (prop_get dp p c) (Prim JUndefined) \<in> set tr"
        by blast
      with \<open>property ct c name = Some d\<close> Some idle show ?thesis by simp
    qed
  qed
qed

subsection \<open>Validity and errors\<close>

text \<open>
  C5: \<open>isValid(key)\<close> with a key is true iff the Error Collector has no errors for that
  key. \<open>isValid()\<close> without a key, whenever it returns, is true iff the collector has no
  errors for any key and every component property that holds a nested context has a
  valid one (the other properties pass); and it does return when no component
  property holds \<open>undefined\<close> or \<open>null\<close> and the nested contexts' own \<open>isValid()\<close> return.
\<close>

theorem isValid_aggregates:
  "isValid (Suc n) ct c (Some k) = Some (Returns (Errors_errors (errs c) (Some k) = [])) \<and>
   (\<forall>b. isValid (Suc n) ct c None = Some (Returns b) \<longrightarrow>
      (b \<longleftrightarrow> Errors_errors (errs c) None = [] \<and>
         (\<forall>(name, d)\<in>set (properties ct c). component d \<noteq> None \<longrightarrow>
            (\<forall>ch. prop_get d name c = Comp ch \<longrightarrow> isValid n ct ch None = Some (Returns True))))) \<and>
   ((\<forall>(name, d)\<in>set (properties ct c). component d \<noteq> None \<longrightarrow>
        prop_get d name c \<noteq> Prim JUndefined \<and> prop_get d name c \<noteq> Prim JNull \<and>
        (\<forall>ch. prop_get d name c = Comp ch \<longrightarrow> (\<exists>b. isValid n ct ch None = Some (Returns b)))) \<longrightarrow>
    (\<exists>b. isValid (Suc n) ct c None = Some (Returns b)))"
  using isValid_key [of n ct c k] isValid_omitted_iff [of n ct c]
    isValid_omitted_returns [of ct c n]
  by blast

theorem isValid_aggregates_witness:
  "Errors_errors (errs form) None = [] \<and>
   isValid 1 sample address None = Some (Returns False) \<and>
   isValid 2 sample form (Some ''billing'') = Some (Returns True) \<and>
   isValid 2 sample form None = Some (Returns False)"
proof -
  have own: "Errors_errors (errs form) None = []"
    by (simp add: form_def Errors_errors_def)
  have child: "isValid 1 sample address None = Some (Returns False)"
    by code_simp
  have props: "properties sample form =
      [(''title'', plain\<lparr>dflt := JStr ''untitled''\<rparr>),
       (''billing'', plain\<lparr>component := Some 2\<rparr>),
       (''shipping'', plain\<lparr>component := Some 2\<rparr>)]"
    by (simp add: properties_def sample_def form_def)
  have billing: "prop_get (plain\<lparr>component := Some 2\<rparr>) ''billing'' form = Comp address"
    by (simp add: prop_get_def plain_def form_def slot_def ivar_def)
  have shipping: "prop_get (plain\<lparr>component := Some 2\<rparr>) ''shipping'' form = Comp address"
    by (simp add: prop_get_def plain_def form_def slot_def ivar_def)
  have title: "component (plain\<lparr>dflt := JStr ''untitled''\<rparr>) = None"
    by (simp add: plain_def)
  have mem: "(''billing'', plain\<lparr>component := Some 2\<rparr>) \<in> set (properties sample form)"
    unfolding props by simp
  note inst = isValid_aggregates [of 1 sample form "''billing''"]
  from inst have keyed: "isValid (Suc 1) sample form (Some ''billing'') = Some (Returns True)"
    by (simp add: form_def Errors_errors_def)
  have "\<forall>(name, d)\<in>set (properties sample form). component d \<noteq> None \<longrightarrow>
          prop_get d name form \<noteq> Prim JUndefined \<and> prop_get d name form \<noteq> Prim JNull \<and>
          (\<forall>ch. prop_get d name form = Comp ch \<longrightarrow> (\<exists>b. isValid 1 sample ch None = Some (Returns b)))"
    unfolding props using billing shipping title child by auto
  with inst obtain b where ret: "isValid (Suc 1) sample form None = Some (Returns b)"
    by blast
  have "\<not> b"
  proof
    assume b
    with inst ret have "\<forall>(name, d)\<in>set (properties sample form). component d \<noteq> None \<longrightarrow>
        (\<forall>ch. prop_get d name form = Comp ch \<longrightarrow> isValid 1 sample ch None = Some (Returns True))"
      by blast
    from bspec [OF this mem] billing child show False by simp
  qed
  with ret own child keyed show ?thesis by (simp add: numeral_2_eq_2)
qed

text \<open>
  C10: \<open>hasErrors(key)\<close> is the negation of \<open>isValid(key)\<close> for every key and for the
  omitted key: it returns the negated boolean where \<open>isValid\<close> returns one, throws what
  \<open>isValid\<close> throws, and does not return where \<open>isValid\<close> does not. In particular
  \<open>hasErrors()\<close> is true when a component property holds an invalid nested context,
  whatever the context's own collector holds.
\<close>

theorem hasErrors_negates_isValid:
  "(\<forall>b. isValid n ct c key = Some (Returns b) \<longrightarrow> hasErrors n ct c key = Some (Returns (\<not> b))) \<and>
   (\<forall>e. isValid n ct c key = Some (Throws e) \<longrightarrow> hasErrors n ct c key = Some (Throws e)) \<and>
   (isValid n ct c key = None \<longrightarrow> hasErrors n ct c key = None) \<and>
   (\<forall>name d ch. (name, d) \<in> set (properties ct c) \<longrightarrow> component d \<noteq> None \<longrightarrow>
      prop_get d name c = Comp ch \<longrightarrow> isValid m ct ch None = Some (Returns False) \<longrightarrow>
      (\<exists>b. isValid (Suc m) ct c None = Some (Returns b)) \<longrightarrow>
      hasErrors (Suc m) ct c None = Some (Returns True))"
proof -
  have nested: "hasErrors (Suc m) ct c None = Some (Returns True)"
    if "(name, d) \<in> set (properties ct c)" "component d \<noteq> None" "prop_get d name c = Comp ch"
      "isValid m ct ch None = Some (Returns False)" "isValid (Suc m) ct c None = Some (Returns b)"
    for name d ch b
  proof -
    have "\<not> b"
    proof
      assume b
      with isValid_omitted_iff [OF that(5)]
      have "\<forall>(name, d)\<in>set (properties ct c). component d \<noteq> None \<longrightarrow>
              (\<forall>ch. prop_get d name c = Comp ch \<longrightarrow> isValid m ct ch None = Some (Returns True))"
        by blast
      from bspec [OF this that(1)] that(2,3,4) show False by simp
    qed
    with that(5) show ?thesis by (simp add: hasErrors_def)
  qed
  have "\<forall>b. isValid n ct c key = Some (Returns b) \<longrightarrow> hasErrors n ct c key = Some (Returns (\<not> b))"
    by (simp add: hasErrors_def)
  moreover have "\<forall>e. isValid n ct c key = Some (Throws e) \<longrightarrow> hasErrors n ct c key = Some (Throws e)"
    by (simp add: hasErrors_def)
  moreover have "isValid n ct c key = None \<longrightarrow> hasErrors n ct c key = None"
    by (simp add: hasErrors_def)
  ultimately show ?thesis using nested by blast
qed

theorem hasErrors_negates_isValid_witness:
  "Errors_errors (errs form) None = [] \<and>
   isValid 1 sample address None = Some (Returns False) \<and>
   isValid 2 sample form None = Some (Returns False) \<and>
   hasErrors 2 sample form None = Some (Returns True) \<and>
   isValid 2 sample form (Some ''title'') = Some (Returns True) \<and>
   hasErrors 2 sample form (Some ''title'') = Some (Returns False)"
proof -
  have own: "Errors_errors (errs form) None = []"
    by (simp add: form_def Errors_errors_def)
  have child: "isValid 1 sample address None = Some (Returns False)"
    by code_simp
  have parent: "isValid 2 sample form None = Some (Returns False)"
    by code_simp
  have keyed: "isValid 2 sample form (Some ''title'') = Some (Returns True)"
    by code_simp
  have mem: "(''billing'', plain\<lparr>component := Some 2\<rparr>) \<in> set (properties sample form)"
    by (simp add: properties_def sample_def form_def)
  have billing: "prop_get (plain\<lparr>component := Some 2\<rparr>) ''billing'' form = Comp address"
    by (simp add: prop_get_def plain_def form_def slot_def ivar_def)
  have comp: "component (plain\<lparr>component := Some 2\<rparr>) \<noteq> None"
    by simp
  have ret: "\<exists>b. isValid (Suc 1) sample form None = Some (Returns b)"
    using parent by (auto simp: numeral_2_eq_2)
  from hasErrors_negates_isValid [of 2 sample form None 1] mem billing comp child ret
  have one: "hasErrors (Suc 1) sample form None = Some (Returns True)"
    by blast
  from hasErrors_negates_isValid [of 2 sample form "Some ''title''" 1] keyed
  have two: "hasErrors 2 sample form (Some ''title'') = Some (Returns False)"
    by auto
  from one two own child parent keyed show ?thesis by (simp add: numeral_2_eq_2)
qed

lemma slot_set_slot: "slot (set_slot k v c) k = v"
proof -
  have "map_of (assign k v xs) k = Some v" for xs :: "(string \<times> jsval) list"
    by (induction xs) auto
  then show ?thesis by (simp add: slot_def set_slot_def)
qed

lemma dependents_ranked_set_slot:
  "dependents_ranked ct (set_slot k v c) rk = dependents_ranked ct c rk"
  by (simp add: dependents_ranked_def property_def properties_def set_slot_def)

subsection \<open>Change events\<close>

text \<open>
  C1 does not hold of the code. The loop over the dependents calls the module-level
  helper with three arguments, \<open>firePropertyChange(this, p, this[p])\<close>: the event
  re-fired for a dependent carries \<open>undefined\<close>, not the dependent's current value, as
  the old value, and the helper's test \<open>oldValue !== newValue\<close> skips a dependent whose
  current value is \<open>undefined\<close>. Firing the change of the person's \<open>first\<close> re-fires
  \<open>full\<close>, whose current value is "Al Doe", with "Al Doe" as the new and \<open>undefined\<close> as
  the old value, and fires nothing for \<open>nick\<close>, a declared dependent whose current
  value is \<open>undefined\<close>. Assigning \<open>undefined\<close> to \<open>first\<close> turns \<open>full\<close> from "Al Doe"
  into \<open>undefined\<close>, and no event for \<open>full\<close> is fired.
\<close>

theorem refired_dependent_carries_undefined:
  "firePropertyChange 2 sample person ''first'' (Prim (JStr ''Al'')) (Prim (JStr ''Bo''))
     = Some [Emit ''first'' (Prim (JStr ''Al'')) (Prim (JStr ''Bo'')),
             Emit ''full'' (Prim (JStr ''Al Doe'')) (Prim JUndefined)] \<and>
   this_get sample person ''full'' = Prim (JStr ''Al Doe'') \<and>
   property sample person ''nick'' = Some plain \<and>
   this_get sample person ''nick'' = Prim JUndefined \<and>
   prop_set 2 sample (plain\<lparr>dependent := Some [''full'', ''nick'', ''ghost'']\<rparr>) ''first''
       (Prim JUndefined) person
     = Some (Returns (), set_slot ''_first'' (Prim JUndefined) person,
             [Emit ''first'' (Prim JUndefined) (Prim (JStr ''Al''))]) \<and>
   this_get sample (set_slot ''_first'' (Prim JUndefined) person) ''full'' = Prim JUndefined"
proof -
  have "firePropertyChange 2 sample person ''first'' (Prim (JStr ''Al'')) (Prim (JStr ''Bo''))
     = Some [Emit ''first'' (Prim (JStr ''Al'')) (Prim (JStr ''Bo'')),
             Emit ''full'' (Prim (JStr ''Al Doe'')) (Prim JUndefined)]"
    by code_simp
  moreover have "this_get sample person ''full'' = Prim (JStr ''Al Doe'')"
    by code_simp
  moreover have "property sample person ''nick'' = Some plain"
    by (simp add: property_def properties_def sample_def person_def)
  moreover have "this_get sample person ''nick'' = Prim JUndefined"
    by code_simp
  moreover have "prop_set 2 sample (plain\<lparr>dependent := Some [''full'', ''nick'', ''ghost'']\<rparr>) ''first''
       (Prim JUndefined) person
     = Some (Returns (), set_slot ''_first'' (Prim JUndefined) person,
             [Emit ''first'' (Prim JUndefined) (Prim (JStr ''Al''))])"
    by code_simp
  moreover have "this_get sample (set_slot ''_first'' (Prim JUndefined) person) ''full'' = Prim JUndefined"
    by code_simp
  ultimately show ?thesis by (intro conjI)
qed

text \<open>
  C9, as amended: a property with the default accessor whose private slot was never
  written reads as its default \<open>dv\<close>; outside a validating pass, assigning it \<open>dv\<close> (not
  \<open>undefined\<close>) still fires a change notification: the assignment stores \<open>dv\<close>, and what
  it fires is the change event with \<open>dv\<close> as the new and \<open>undefined\<close>, the raw content
  of the slot, as the old value, followed by the events re-fired for the dependents.
  It returns so when the \<open>dependent\<close> declarations have no cycle. Assigning \<open>dv\<close> once
  more fires nothing.
\<close>

theorem default_setter_fires_for_default:
  assumes "\<not> validating c" and "get_fn d = None"
    and "slot c (ivar name) = Prim JUndefined" and "dflt d = dv" and "dv \<noteq> JUndefined"
  shows "prop_get d name c = Prim dv \<and>
         prop_set (Suc n) ct d name (Prim dv) c
           = map_option (\<lambda>tr. (Returns (), set_slot (ivar name) (Prim dv) c,
                                Emit name (Prim dv) (Prim JUndefined) # tr))
               (case property ct c name of
                  None \<Rightarrow> Some []
                | Some d' \<Rightarrow> (case dependent d' of
                     None \<Rightarrow> Some []
                   | Some ps \<Rightarrow> fire_dependents n ct (set_slot (ivar name) (Prim dv) c) ps)) \<and>
         (dependents_ranked ct c rk \<longrightarrow> rk name \<le> n \<longrightarrow>
            (\<exists>tr. prop_set (Suc n) ct d name (Prim dv) c
                     = Some (Returns (), set_slot (ivar name) (Prim dv) c,
                             Emit name (Prim dv) (Prim JUndefined) # tr))) \<and>
         prop_set (Suc n) ct d name (Prim dv) (set_slot (ivar name) (Prim dv) c)
           = Some (Returns (), set_slot (ivar name) (Prim dv) (set_slot (ivar name) (Prim dv) c), [])"
proof -
  let ?c1 = "set_slot (ivar name) (Prim dv) c"
  have read: "prop_get d name c = Prim dv"
    using assms(2,3,4) by (simp add: prop_get_def)
  have idle: "\<not> validating ?c1"
    using assms(1) by (simp add: set_slot_def)
  have same: "property ct ?c1 name = property ct c name"
    by (simp add: property_def properties_def set_slot_def)
  have first: "prop_set (Suc n) ct d name (Prim dv) c
           = map_option (\<lambda>tr. (Returns (), ?c1, Emit name (Prim dv) (Prim JUndefined) # tr))
               (case property ct c name of
                  None \<Rightarrow> Some []
                | Some d' \<Rightarrow> (case dependent d' of
                     None \<Rightarrow> Some []
                   | Some ps \<Rightarrow> fire_dependents n ct ?c1 ps))"
    using assms(2,3,5) idle
    by (simp add: prop_set_def Let_def same option.map_comp comp_def)
  have total: "\<exists>tr. prop_set (Suc n) ct d name (Prim dv) c
                     = Some (Returns (), ?c1, Emit name (Prim dv) (Prim JUndefined) # tr)"
    if ranked: "dependents_ranked ct c rk" and rank: "rk name \<le> n"
  proof -
    from ranked have "dependents_ranked ct ?c1 rk"
      by (simp add: dependents_ranked_set_slot)
    moreover from rank have "rk name < Suc n"
      by simp
    ultimately obtain tr where
      "firePropertyChange (Suc n) ct ?c1 name (Prim dv) (Prim JUndefined)
         = Some (Emit name (Prim dv) (Prim JUndefined) # tr)"
      using firePropertyChange_ranked [of ct ?c1 rk name "Suc n" "Prim dv" "Prim JUndefined"] idle
      by (elim meta_impE exE conjE)
    then have "prop_set (Suc n) ct d name (Prim dv) c
        = Some (Returns (), ?c1, Emit name (Prim dv) (Prim JUndefined) # tr)"
      using assms(2,3,5) by (simp add: prop_set_def)
    then show ?thesis by (intro exI [of _ tr])
  qed
  have again: "prop_set (Suc n) ct d name (Prim dv) ?c1
      = Some (Returns (), set_slot (ivar name) (Prim dv) ?c1, [])"
    using assms(2) by (simp add: prop_set_def slot_set_slot Let_def)
  from total have "dependents_ranked ct c rk \<longrightarrow> rk name \<le> n \<longrightarrow>
            (\<exists>tr. prop_set (Suc n) ct d name (Prim dv) c
                     = Some (Returns (), ?c1, Emit name (Prim dv) (Prim JUndefined) # tr))"
    by (intro impI)
  with read first again show ?thesis by (intro conjI)
qed

theorem default_setter_fires_for_default_witness:
  "\<not> validating person \<and>
   slot person (ivar ''count'') = Prim JUndefined \<and>
   dependents_ranked sample person person_rank \<and>
   person_rank ''count'' \<le> 0 \<and>
   prop_get (plain\<lparr>dflt := JNum 5\<rparr>) ''count'' person = Prim (JNum 5) \<and>
   prop_set (Suc 0) sample (plain\<lparr>dflt := JNum 5\<rparr>) ''count'' (Prim (JNum 5)) person
     = Some (Returns (), set_slot ''_count'' (Prim (JNum 5)) person,
             [Emit ''count'' (Prim (JNum 5)) (Prim JUndefined)]) \<and>
   prop_set (Suc 0) sample (plain\<lparr>dflt := JNum 5\<rparr>) ''count'' (Prim (JNum 5))
       (set_slot ''_count'' (Prim (JNum 5)) person)
     = Some (Returns (), set_slot ''_count'' (Prim (JNum 5)) (set_slot ''_count'' (Prim (JNum 5)) person),
             [])"
proof -
  have ranked: "dependents_ranked sample person person_rank"
    by (simp add: dependents_ranked_def properties_def property_def sample_def person_def
        plain_def person_rank_def)
  have idle: "\<not> validating person"
    by (simp add: person_def)
  have accessor: "get_fn (plain\<lparr>dflt := JNum 5\<rparr>) = None"
    by (simp add: plain_def)
  have raw: "slot person (ivar ''count'') = Prim JUndefined"
    by (simp add: slot_def ivar_def person_def)
  have dv: "dflt (plain\<lparr>dflt := JNum 5\<rparr>) = JNum 5" "JNum 5 \<noteq> JUndefined"
    by simp_all
  have rank: "person_rank ''count'' \<le> 0"
    by (simp add: person_rank_def)
  have declared: "property sample person ''count'' = Some (plain\<lparr>dflt := JNum 5\<rparr>)"
    by (simp add: property_def properties_def sample_def person_def)
  have none: "dependent (plain\<lparr>dflt := JNum 5\<rparr>) = None"
    by (simp add: plain_def)
  have name: "ivar ''count'' = ''_count''"
    by (simp add: ivar_def)
  note inst = default_setter_fires_for_default [OF idle accessor raw dv, of 0 sample person_rank]
  from inst have read: "prop_get (plain\<lparr>dflt := JNum 5\<rparr>) ''count'' person = Prim (JNum 5)"
    by (rule conjunct1)
  from inst have "prop_set (Suc 0) sample (plain\<lparr>dflt := JNum 5\<rparr>) ''count'' (Prim (JNum 5)) person
     = map_option (\<lambda>tr. (Returns (), set_slot (ivar ''count'') (Prim (JNum 5)) person,
                                Emit ''count'' (Prim (JNum 5)) (Prim JUndefined) # tr))
               (case property sample person ''count'' of
                  None \<Rightarrow> Some []
                | Some d' \<Rightarrow> (case dependent d' of
                     None \<Rightarrow> Some []
                   | Some ps \<Rightarrow> fire_dependents 0 sample (set_slot (ivar ''count'') (Prim (JNum 5)) person) ps))"
    by (elim conjE)
  then have run: "prop_set (Suc 0) sample (plain\<lparr>dflt := JNum 5\<rparr>) ''count'' (Prim (JNum 5)) person
     = Some (Returns (), set_slot ''_count'' (Prim (JNum 5)) person,
             [Emit ''count'' (Prim (JNum 5)) (Prim JUndefined)])"
    by (simp add: declared none name)
  from inst have again: "prop_set (Suc 0) sample (plain\<lparr>dflt := JNum 5\<rparr>) ''count'' (Prim (JNum 5))
       (set_slot ''_count'' (Prim (JNum 5)) person)
     = Some (Returns (), set_slot ''_count'' (Prim (JNum 5)) (set_slot ''_count'' (Prim (JNum 5)) person),
             [])"
    unfolding name by (elim conjE)
  from idle raw ranked rank read run again show ?thesis by (intro conjI)
qed

text \<open>
  C9 as the claim states it fails: while the validating flag is set,
  \<open>firePropertyChange\<close> emits nothing. The person's \<open>count\<close> was never written and reads
  as its default 5; assigning it 5 with the flag set stores 5 and fires no event. A
  validating pass makes that assignment (\<open>this[name] = this[name]\<close>): \<open>validate()\<close> on the
  person writes 5 into the slot of \<open>count\<close> and fires nothing.
\<close>

theorem default_setter_while_validating_counterexample:
  "slot (set_validating True person) (ivar ''count'') = Prim JUndefined \<and>
   prop_get (plain\<lparr>dflt := JNum 5\<rparr>) ''count'' (set_validating True person) = Prim (JNum 5) \<and>
   prop_set 1 sample (plain\<lparr>dflt := JNum 5\<rparr>) ''count'' (Prim (JNum 5)) (set_validating True person)
     = Some (Returns (), set_slot ''_count'' (Prim (JNum 5)) (set_validating True person), []) \<and>
   validate 3 sample person
     = Some (Returns True,
             Ctx 0 [] False [(''_first'', Prim (JStr ''Al'')), (''_nick'', Prim JUndefined),
                             (''_count'', Prim (JNum 5))],
             [])"
proof -
  have "slot (set_validating True person) (ivar ''count'') = Prim JUndefined"
    by code_simp
  moreover have "prop_get (plain\<lparr>dflt := JNum 5\<rparr>) ''count'' (set_validating True person)
      = Prim (JNum 5)"
    by code_simp
  moreover have "prop_set 1 sample (plain\<lparr>dflt := JNum 5\<rparr>) ''count'' (Prim (JNum 5))
      (set_validating True person)
     = Some (Returns (), set_slot ''_count'' (Prim (JNum 5)) (set_validating True person), [])"
    by code_simp
  moreover have "validate 3 sample person
     = Some (Returns True,
             Ctx 0 [] False [(''_first'', Prim (JStr ''Al'')), (''_nick'', Prim JUndefined),
                             (''_count'', Prim (JNum 5))],
             [])"
    by code_simp
  ultimately show ?thesis by (intro conjI)
qed

subsection \<open>What the iterations preserve\<close>

lemma lodash_each_invariant:
  assumes step: "\<And>x s r s' t. x \<in> set xs \<Longrightarrow> P s \<Longrightarrow> f x s = Some (r, s', t) \<Longrightarrow> P s'"
    and "P s" and "lodash_each f xs s = Some (r, s', t)"
  shows "P s'"
  using assms
proof (induction xs arbitrary: s r s' t)
  case Nil
  then show ?case by simp
next
  case (Cons x xs)
  from Cons.prems(3) obtain r1 s1 t1 where fx: "f x s = Some (r1, s1, t1)"
    by (cases "f x s") auto
  with Cons.prems(1) [of x s r1 s1 t1] Cons.prems(2) have P1: "P s1" by simp
  show ?case
  proof (cases r1)
    case (Throws e)
    with Cons.prems(3) fx P1 show ?thesis by simp
  next
    case (Returns u)
    with Cons.prems(3) fx obtain r2 t2 where rest: "lodash_each f xs s1 = Some (r2, s', t2)"
      by (auto split: option.splits)
    show ?thesis
    proof (rule Cons.IH [OF _ P1 rest])
      fix y s r s' t
      assume "y \<in> set xs" "P s" "f y s = Some (r, s', t)"
      then show "P s'" using Cons.prems(1) [of y s r s' t] by simp
    qed
  qed
qed

lemma lodash_every_invariant:
  assumes step: "\<And>x s r s' t. x \<in> set xs \<Longrightarrow> P s \<Longrightarrow> f x s = Some (r, s', t) \<Longrightarrow> P s'"
    and "P s" and "lodash_every f xs s = Some (r, s', t)"
  shows "P s'"
  using assms
proof (induction xs arbitrary: s r s' t)
  case Nil
  then show ?case by simp
next
  case (Cons x xs)
  from Cons.prems(3) obtain r1 s1 t1 where fx: "f x s = Some (r1, s1, t1)"
    by (cases "f x s") auto
  with Cons.prems(1) [of x s r1 s1 t1] Cons.prems(2) have P1: "P s1" by simp
  show ?case
  proof (cases r1)
    case (Throws e)
    with Cons.prems(3) fx P1 show ?thesis by simp
  next
    case (Returns v)
    show ?thesis
    proof (cases "truthy v")
      case False
      with Cons.prems(3) fx Returns P1 show ?thesis by simp
    next
      case True
      with Cons.prems(3) fx Returns obtain r2 t2 where rest: "lodash_every f xs s1 = Some (r2, s', t2)"
        by (auto split: option.splits)
      show ?thesis
      proof (rule Cons.IH [OF _ P1 rest])
        fix y s r s' t
        assume "y \<in> set xs" "P s" "f y s = Some (r, s', t)"
        then show "P s'" using Cons.prems(1) [of y s r s' t] by simp
      qed
    qed
  qed
qed


lemma clearErrors_keeps:
  assumes "clearErrors n ct c key = Some (r, c', tr)"
  shows "validating c' = validating c \<and> cls c' = cls c"
proof (cases n)
  case 0
  with assms show ?thesis by (simp add: clearErrors.simps)
next
  case (Suc m)
  let ?P = "\<lambda>s. validating s = validating c \<and> cls s = cls c"
  let ?c1 = "set_errs (Errors_clear (errs c) key) c"
  have c1: "?P ?c1" by (simp add: set_errs_def)
  show ?thesis
  proof (cases key)
    case (Some k)
    with assms Suc c1 show ?thesis by (auto simp: clearErrors.simps Let_def)
  next
    case None
    define f where "f = (\<lambda>(name, desc) s.
                 if component desc \<noteq> None then
                   (case receiver (prop_get desc name s) of
                      Nullish \<Rightarrow> Some (Throws TypeError, s, [])
                    | NoMethod \<Rightarrow> Some (Returns (Prim (JBool True)), s, [])
                    | Object ch \<Rightarrow>
                        (case clearErrors m ct ch None of
                           None \<Rightarrow> None
                         | Some (Throws e, ch', tr) \<Rightarrow>
                             Some (Throws e, set_slot (ivar name) (Comp ch') s, map (Child name) tr)
                         | Some (Returns u, ch', tr) \<Rightarrow>
                             Some (Returns (Prim JUndefined), set_slot (ivar name) (Comp ch') s,
                                   map (Child name) tr)))
                 else Some (Returns (Prim (JBool True)), s, []))"
    from assms Suc None obtain r2 where
      ev: "lodash_every f (properties ct ?c1) ?c1 = Some (r2, c', tr)"
      by (auto simp: clearErrors.simps Let_def f_def split: option.splits outcome.splits)
    have "?P s'" if "?P s" "f x s = Some (r, s', t)" for x s r s' t
      using that
      by (cases x) (auto simp: f_def set_slot_def
          split: if_splits receiver.splits option.splits outcome.splits)
    from lodash_every_invariant [of "properties ct ?c1" ?P f, OF this c1 ev]
    show ?thesis .
  qed
qed


lemma prop_set_keeps_flag:
  assumes "\<forall>st v s. set_fn d = Some st \<longrightarrow> validating (fst (st v s)) = validating s"
    and "prop_set n ct d name v c = Some (r, c', tr)"
  shows "validating c' = validating c"
proof (cases "get_fn d")
  case None
  with assms(2) show ?thesis by (auto simp: prop_set_def Let_def set_slot_def)
next
  case (Some g)
  show ?thesis
  proof (cases "set_fn d")
    case None
    with Some assms(2) show ?thesis by (simp add: prop_set_def)
  next
    case (Some st)
    obtain c1 ex where run: "st v c = (c1, ex)" by (cases "st v c")
    with assms(1) Some have "validating c1 = validating c" by (metis fst_conv)
    with assms(2) \<open>get_fn d = Some g\<close> Some run show ?thesis
      by (auto simp: prop_set_def Let_def split: option.splits)
  qed
qed

lemma validate_exit:
  assumes "validate n ct c = Some (r, c', tr)"
  shows "\<not> validating c'"
proof (cases n)
  case 0
  with assms show ?thesis by (simp add: validate.simps)
next
  case (Suc m)
  have fin: "\<not> validating c3"
    if "lodash_each (refire m ct) changed (set_validating False c1) = Some (r2, c3, tr2)"
    for changed c1 r2 c3 tr2
  proof -
    have "c3 = set_validating False c1"
      by (rule lodash_each_invariant [where P = "\<lambda>s. s = set_validating False c1", OF _ refl that])
         (auto simp: refire_def Let_def)
    then show ?thesis by (simp add: set_validating_def)
  qed
  from assms Suc show ?thesis
    by (auto simp: validate.simps Let_def dest: fin split: option.splits prod.splits outcome.splits)
qed

lemma reset_keeps_flag:
  assumes "\<forall>(p, d)\<in>set (properties ct c). \<forall>st v s. set_fn d = Some st \<longrightarrow>
             validating (fst (st v s)) = validating s"
    and "reset n ct c newData = Some (r, c', tr)"
  shows "validating c' = validating c"
proof (rule lodash_each_invariant [where P = "\<lambda>s. validating s = validating c",
      OF _ refl assms(2) [unfolded reset_def Let_def]])
  fix x s r s' t
  assume x: "x \<in> set (properties ct c)" and s: "validating s = validating c"
    and run: "(case x of (name, desc) \<Rightarrow> \<lambda>s.
                 if writable desc
                 then prop_set n ct desc name
                        (if truthy (lookup (case newData of None \<Rightarrow> [] | Some nd \<Rightarrow> nd) name)
                         then lookup (case newData of None \<Rightarrow> [] | Some nd \<Rightarrow> nd) name
                         else Prim (dflt desc)) s
                 else Some (Returns (), s, [])) s = Some (r, s', t)"
  obtain name d where xd: "x = (name, d)" by (cases x)
  with x assms(1) have "\<forall>st v s. set_fn d = Some st \<longrightarrow> validating (fst (st v s)) = validating s"
    by auto
  from prop_set_keeps_flag [of d, OF this] run xd s
  show "validating s' = validating c"
    by (auto split: if_splits)
qed

lemma putAll_keeps_flag:
  assumes "\<forall>(p, d)\<in>set (properties ct c). \<forall>st v s. set_fn d = Some st \<longrightarrow>
             validating (fst (st v s)) = validating s"
    and "putAll n ct c newData = Some (r, c', tr)"
  shows "validating c' = validating c"
proof (cases newData)
  case None
  with assms(2) show ?thesis by (simp add: putAll_def)
next
  case (Some nd)
  with assms(2) have run: "lodash_each (\<lambda>(name, desc) s.
              if writable desc \<and> map_of nd name \<noteq> None then
                prop_set n ct desc name (lookup nd name) s
              else Some (Returns (), s, []))
            (properties ct c) c = Some (r, c', tr)"
    by (simp add: putAll_def)
  show ?thesis
  proof (rule lodash_each_invariant [where P = "\<lambda>s. validating s = validating c", OF _ refl run])
    fix x s r s' t
    assume x: "x \<in> set (properties ct c)" and s: "validating s = validating c"
      and step: "(case x of (name, desc) \<Rightarrow> \<lambda>s.
              if writable desc \<and> map_of nd name \<noteq> None then
                prop_set n ct desc name (lookup nd name) s
              else Some (Returns (), s, [])) s = Some (r, s', t)"
    obtain name d where xd: "x = (name, d)" by (cases x)
    with x assms(1) have "\<forall>st v s. set_fn d = Some st \<longrightarrow> validating (fst (st v s)) = validating s"
      by auto
    from prop_set_keeps_flag [of d, OF this] step xd s
    show "validating s' = validating c"
      by (auto split: if_splits)
  qed
qed

subsection \<open>The validating flag\<close>

text \<open>
  C6: \<open>validate()\<close> leaves the validating flag cleared on every exit, whether it returns
  or throws; the other methods that change the context (\<open>clearErrors\<close>, \<open>reset\<close>,
  \<open>putAll\<close>, the last two as long as the user's setters leave the flag alone) keep the
  flag as it was, so that it is set only inside \<open>validate()\<close>; and while the flag is
  set, \<open>firePropertyChange\<close> makes no call on the emitter.
\<close>

theorem validating_flag:
  "(\<forall>r c' tr. validate n ct c = Some (r, c', tr) \<longrightarrow> \<not> validating c') \<and>
   (validating c \<longrightarrow> firePropertyChange (Suc n) ct c name newValue oldValue = Some []) \<and>
   (\<forall>r c' tr. clearErrors n ct c key = Some (r, c', tr) \<longrightarrow> validating c' = validating c) \<and>
   ((\<forall>(p, d)\<in>set (properties ct c). \<forall>st v s. set_fn d = Some st \<longrightarrow>
        validating (fst (st v s)) = validating s) \<longrightarrow>
      (\<forall>r c' tr. reset n ct c newData = Some (r, c', tr) \<longrightarrow> validating c' = validating c) \<and>
      (\<forall>r c' tr. putAll n ct c newData = Some (r, c', tr) \<longrightarrow> validating c' = validating c))"
proof (intro conjI allI impI)
  fix r c' tr
  assume "validate n ct c = Some (r, c', tr)"
  then show "\<not> validating c'" by (rule validate_exit)
next
  assume "validating c"
  then show "firePropertyChange (Suc n) ct c name newValue oldValue = Some []" by simp
next
  fix r c' tr
  assume "clearErrors n ct c key = Some (r, c', tr)"
  from clearErrors_keeps [OF this] show "validating c' = validating c" by simp
next
  fix r c' tr
  assume "\<forall>(p, d)\<in>set (properties ct c). \<forall>st v s. set_fn d = Some st \<longrightarrow>
        validating (fst (st v s)) = validating s"
    and "reset n ct c newData = Some (r, c', tr)"
  then show "validating c' = validating c" by (rule reset_keeps_flag)
next
  fix r c' tr
  assume "\<forall>(p, d)\<in>set (properties ct c). \<forall>st v s. set_fn d = Some st \<longrightarrow>
        validating (fst (st v s)) = validating s"
    and "putAll n ct c newData = Some (r, c', tr)"
  then show "validating c' = validating c" by (rule putAll_keeps_flag)
qed

theorem validating_flag_witness:
  "validate 2 sample (set_validating True patient)
     = Some (Throws (Thrown (JStr ''age is not a number'')), Ctx 3 [] False [], []) \<and>
   \<not> validating (Ctx 3 [] False []) \<and>
   validate 3 sample clinic
     = Some (Throws (Thrown (JStr ''age is not a number'')),
             Ctx 4 [] False [(''_patient'', Comp (Ctx 3 [] False []))], []) \<and>
   \<not> validating (Ctx 4 [] False [(''_patient'', Comp (Ctx 3 [] False []))]) \<and>
   validate 2 sample (set_slot ''_age'' (Prim (JNum (- 1))) patient)
     = Some (Returns False,
             Ctx 3 [(''age'', [''negative''])] False [(''_age'', Prim (JNum (- 1)))],
             [Emit ''age'' (Prim (JNum (- 1))) (Prim (JNum (- 1)))]) \<and>
   \<not> validating (Ctx 3 [(''age'', [''negative''])] False [(''_age'', Prim (JNum (- 1)))]) \<and>
   validating (set_validating True person) \<and>
   firePropertyChange (Suc 1) sample (set_validating True person) ''first'' (Prim JNull) (Prim JUndefined)
     = Some [] \<and>
   reset 2 sample (set_validating True patient) (Some [(''age'', Prim (JNum 3))])
     = Some (Returns (), Ctx 3 [] True [(''_age'', Prim (JNum 3))], []) \<and>
   validating (Ctx 3 [] True [(''_age'', Prim (JNum 3))]) = validating (set_validating True patient)"
proof -
  have thrown: "validate 2 sample (set_validating True patient)
     = Some (Throws (Thrown (JStr ''age is not a number'')), Ctx 3 [] False [], [])"
    by code_simp
  have nested: "validate 3 sample clinic
     = Some (Throws (Thrown (JStr ''age is not a number'')),
             Ctx 4 [] False [(''_patient'', Comp (Ctx 3 [] False []))], [])"
    by code_simp
  have normal: "validate 2 sample (set_slot ''_age'' (Prim (JNum (- 1))) patient)
     = Some (Returns False,
             Ctx 3 [(''age'', [''negative''])] False [(''_age'', Prim (JNum (- 1)))],
             [Emit ''age'' (Prim (JNum (- 1))) (Prim (JNum (- 1)))])"
    by code_simp
  from validating_flag [of 3 sample clinic "''patient''" "Prim JNull" "Prim JNull" None None] nested
  have nested_exit: "\<not> validating (Ctx 4 [] False [(''_patient'', Comp (Ctx 3 [] False []))])"
    by blast
  from validating_flag [of 2 sample "set_slot ''_age'' (Prim (JNum (- 1))) patient" "''age''"
      "Prim JNull" "Prim JNull" None None] normal
  have normal_exit:
    "\<not> validating (Ctx 3 [(''age'', [''negative''])] False [(''_age'', Prim (JNum (- 1)))])"
    by blast
  have busy: "validating (set_validating True person)"
    by (simp add: set_validating_def)
  have run: "reset 2 sample (set_validating True patient) (Some [(''age'', Prim (JNum 3))])
     = Some (Returns (), Ctx 3 [] True [(''_age'', Prim (JNum 3))], [])"
    by code_simp
  have setters: "\<forall>(p, d)\<in>set (properties sample (set_validating True patient)).
      \<forall>st v s. set_fn d = Some st \<longrightarrow> validating (fst (st v s)) = validating s"
    by (auto simp: properties_def sample_def patient_def set_validating_def plain_def
        set_age_def set_slot_def set_errs_def split: jsval.splits prim.splits)
  note a = validating_flag [of 2 sample "set_validating True patient" "''first''" "Prim JNull"
      "Prim JUndefined" None "Some [(''age'', Prim (JNum 3))]"]
  note b = validating_flag [of 1 sample "set_validating True person" "''first''" "Prim JNull"
      "Prim JUndefined" None None]
  from a thrown have one: "\<not> validating (Ctx 3 [] False [])"
    by blast
  from b busy have two: "firePropertyChange (Suc 1) sample (set_validating True person) ''first''
      (Prim JNull) (Prim JUndefined) = Some []"
    by blast
  from a setters run have three:
    "validating (Ctx 3 [] True [(''_age'', Prim (JNum 3))]) = validating (set_validating True patient)"
    by blast
  from thrown one nested nested_exit normal normal_exit busy two run three show ?thesis
    by (intro conjI)
qed

subsection \<open>Attaching a listener\<close>

lemma count_one_remove1: "count_list xs l = 1 \<Longrightarrow> l \<notin> set (remove1 l xs)"
proof (induction xs)
  case Nil
  then show ?case by simp
next
  case (Cons y ys)
  show ?case
  proof (cases "y = l")
    case True
    with Cons.prems have "count_list ys l = 0" by simp
    then show ?thesis using True by (simp add: count_list_0_iff)
  next
    case False
    with Cons show ?thesis by simp
  qed
qed


lemma ignoring_laws: "emitter_laws ignoring"
  by (simp add: emitter_laws_def ignoring_def count_one_remove1)












subsection \<open>Clearing errors and resetting\<close>

text \<open>
  C2 does not hold of the code: \<open>clearErrors()\<close> iterates with \<open>_.every\<close>, and the callback
  returns the \<open>undefined\<close> that the component's \<open>clearErrors()\<close> returns, so the iteration
  stops after the first component. The form's own collector and its \<open>billing\<close> address
  are cleared; its \<open>shipping\<close> address keeps its error and still reports errors.
\<close>

theorem clearErrors_stops_after_first_component:
  "clearErrors 2 sample form None
     = Some (Returns (),
             Ctx 1 [] False [(''_billing'', Comp (Ctx 2 [] False [])), (''_shipping'', Comp address)],
             []) \<and>
   hasErrors 1 sample address None = Some (Returns True)"
proof -
  have "clearErrors 2 sample form None
     = Some (Returns (),
             Ctx 1 [] False [(''_billing'', Comp (Ctx 2 [] False [])), (''_shipping'', Comp address)],
             [])"
    by code_simp
  moreover have "hasErrors 1 sample address None = Some (Returns True)"
    by code_simp
  ultimately show ?thesis by (intro conjI)
qed

text \<open>
  C3 does not hold of the code: \<open>reset\<close> assigns \<open>newData[name] || property.default\<close>, so
  a value that is present but not truthy is replaced by the default. Resetting the
  person with \<open>{count: 0}\<close> leaves \<open>count\<close> at its default 5, where \<open>putAll\<close> with the same
  data stores 0.
\<close>

theorem reset_replaces_falsy_value:
  "reset 2 sample person (Some [(''count'', Prim (JNum 0))])
     = Some (Returns (),
             Ctx 0 [] False [(''_first'', Prim JUndefined), (''_nick'', Prim JUndefined),
                             (''_count'', Prim (JNum 5))],
             [Emit ''first'' (Prim JUndefined) (Prim (JStr ''Al'')),
              Emit ''count'' (Prim (JNum 5)) (Prim JUndefined)]) \<and>
   putAll 2 sample person (Some [(''count'', Prim (JNum 0))])
     = Some (Returns (),
             Ctx 0 [] False [(''_first'', Prim (JStr ''Al'')), (''_count'', Prim (JNum 0))],
             [Emit ''count'' (Prim (JNum 0)) (Prim JUndefined)])"
proof -
  have "reset 2 sample person (Some [(''count'', Prim (JNum 0))])
     = Some (Returns (),
             Ctx 0 [] False [(''_first'', Prim JUndefined), (''_nick'', Prim JUndefined),
                             (''_count'', Prim (JNum 5))],
             [Emit ''first'' (Prim JUndefined) (Prim (JStr ''Al'')),
              Emit ''count'' (Prim (JNum 5)) (Prim JUndefined)])"
    by code_simp
  moreover have "putAll 2 sample person (Some [(''count'', Prim (JNum 0))])
     = Some (Returns (),
             Ctx 0 [] False [(''_first'', Prim (JStr ''Al'')), (''_count'', Prim (JNum 0))],
             [Emit ''count'' (Prim (JNum 0)) (Prim JUndefined)])"
    by code_simp
  ultimately show ?thesis by (intro conjI)
qed

end
